theory Spec2Isabelle
  imports Complex_Main "HOL-Library.Word" "HOL-Library.Sublist"
begin

unbundle bit_operations_syntax

section \<open>Raw frames and the thermal sample\<close>

text \<open>
  \<^verbatim>\<open>cap.read()\<close> hands the capture loop a three-dimensional array of unsigned
  bytes: rows, columns, and two channels per pixel. The model keeps the nesting as
  lists. Indexing a numpy array out of range raises \<^verbatim>\<open>IndexError\<close>; the only
  indices the program uses are the non-negative constants 96, 128, 0 and 1.
\<close>

type_synonym byte = "8 word"
type_synonym bytes = "char list"
type_synonym raw_frame = "byte list list list"

datatype error = IndexError | BrokenPipe

definition getitem :: "'a list \<Rightarrow> nat \<Rightarrow> error + 'a" where
  "getitem xs i = (if i < length xs then Inr (xs ! i) else Inl IndexError)"

text \<open>
  \<^verbatim>\<open>np.array_split(frame, 2)\<close> cuts along the first axis into two sections; when the
  number of rows is odd, the first section takes the extra row.
\<close>

definition array_split2 :: "'a list \<Rightarrow> 'a list \<times> 'a list" where
  "array_split2 ary =
     (let Ntotal = length ary;
          Neach_section = Ntotal div 2;
          extras = Ntotal mod 2
      in (take (Neach_section + extras) ary, drop (Neach_section + extras) ary))"

text \<open>
  Lines 117 to 121. \<^verbatim>\<open>hi\<close> and \<^verbatim>\<open>lo\<close> are numpy \<^verbatim>\<open>uint8\<close> scalars. Under
  the value-based promotion of NumPy 1.x, for which the script was written, the product
  \<^verbatim>\<open>lo*256\<close> of such a scalar with the Python integer 256 is a 64-bit integer, and so
  is the sum, which is at most 65535: nothing wraps, and the model reads both bytes as
  unbounded integers. (From NumPy 2.0 on the Python integer is cast to \<^verbatim>\<open>uint8\<close>
  first, and 256 does not fit.)
  \<^verbatim>\<open>rawtemp/64\<close> is true division; it is exact in binary floating point. The constant
  273.15 and the subtraction are rounded there, which the model leaves out: it keeps the
  value as an exact real number.
\<close>

definition temp_of_bytes :: "byte \<Rightarrow> byte \<Rightarrow> real" where
  "temp_of_bytes hi lo =
     (let lo' = uint lo * 256;
          rawtemp = uint hi + lo'
      in (real_of_int rawtemp / 64) - 273.15)"

definition decode_temp :: "raw_frame \<Rightarrow> error + real" where
  "decode_temp thdata =
     (case getitem thdata 96 of Inl e \<Rightarrow> Inl e | Inr row \<Rightarrow>
      case getitem row 128 of Inl e \<Rightarrow> Inl e | Inr px \<Rightarrow>
      case getitem px 0 of Inl e \<Rightarrow> Inl e | Inr hi \<Rightarrow>
      case getitem thdata 96 of Inl e \<Rightarrow> Inl e | Inr row' \<Rightarrow>
      case getitem row' 128 of Inl e \<Rightarrow> Inl e | Inr px' \<Rightarrow>
      case getitem px' 1 of Inl e \<Rightarrow> Inl e | Inr lo \<Rightarrow>
      Inr (temp_of_bytes hi lo))"

text \<open>The temperature the capture loop computes from a whole raw frame.\<close>

definition frame_temp :: "raw_frame \<Rightarrow> error + real" where
  "frame_temp frame = (case array_split2 frame of (imdata, thdata) \<Rightarrow> decode_temp thdata)"

text \<open>
  The two bytes of the thermal reading at row 96, column 128 of the thermal half, in the
  order they lie in the frame.
\<close>

definition sample_bytes :: "raw_frame \<Rightarrow> (byte \<times> byte) option" where
  "sample_bytes frame =
     (let thdata = snd (array_split2 frame) in
      if 96 < length thdata \<and> 128 < length (thdata ! 96) \<and> 1 < length (thdata ! 96 ! 128)
      then Some (thdata ! 96 ! 128 ! 0, thdata ! 96 ! 128 ! 1)
      else None)"

section \<open>The frame store\<close>

text \<open>
  \<^verbatim>\<open>ThreadedHTTPServer\<close> adds one attribute to the library's server:
  \<^verbatim>\<open>current_frame\<close>, which is \<^verbatim>\<open>None\<close> or whatever \<^verbatim>\<open>set_frame\<close> last stored.
\<close>

record 'img server =
  current_frame :: "'img option"

definition ThreadedHTTPServer_init :: "'img server" where
  "ThreadedHTTPServer_init = \<lparr>current_frame = None\<rparr>"

definition set_frame :: "'img option \<Rightarrow> 'img server \<Rightarrow> 'img server" where
  "set_frame frame self = self\<lparr>current_frame := frame\<rparr>"

definition get_frame :: "'img server \<Rightarrow> 'img option" where
  "get_frame self = current_frame self"

text \<open>
  A history of calls on one store: publishes with their argument, reads with the value
  they return.
\<close>

datatype 'img store_call = Publish 'img | Read

fun store_run :: "'img store_call list \<Rightarrow> 'img server \<Rightarrow> 'img option list \<times> 'img server" where
  "store_run [] self = ([], self)"
| "store_run (Publish frame # cs) self = store_run cs (set_frame (Some frame) self)"
| "store_run (Read # cs) self =
     (case store_run cs self of (rs, self') \<Rightarrow> (get_frame self # rs, self'))"

section \<open>The image pipeline\<close>

text \<open>
  The image operations are calls into OpenCV; the model takes them as parameters, with the
  arguments the program passes, over an arbitrary type of images. \<open>format_1f\<close> stands for
  Python's \<^verbatim>\<open>f"{temp:.1f}"\<close>. The flags the program passes are the only members of
  their types.
\<close>

datatype color_code = COLOR_YUV2BGR_YUYV
datatype interpolation = INTER_CUBIC
datatype colormap_id = COLORMAP_JET
datatype font = FONT_HERSHEY_SIMPLEX

record 'img cv2 =
  cvtColor :: "raw_frame \<Rightarrow> color_code \<Rightarrow> 'img"
  convertScaleAbs :: "'img \<Rightarrow> real \<Rightarrow> 'img"
  resize :: "'img \<Rightarrow> nat \<times> nat \<Rightarrow> interpolation \<Rightarrow> 'img"
  blur :: "'img \<Rightarrow> nat \<times> nat \<Rightarrow> 'img"
  applyColorMap :: "'img \<Rightarrow> colormap_id \<Rightarrow> 'img"
  putText :: "'img \<Rightarrow> string \<Rightarrow> nat \<times> nat \<Rightarrow> font \<Rightarrow> nat \<Rightarrow> nat \<times> nat \<times> nat \<Rightarrow> nat \<Rightarrow> 'img"
  imencode :: "string \<Rightarrow> 'img \<Rightarrow> bytes"
  format_1f :: "real \<Rightarrow> string"

text \<open>The module-level settings, lines 95 to 103.\<close>

record settings =
  width :: nat
  height :: nat
  scale :: nat
  newWidth :: nat
  newHeight :: nat
  alpha :: real
  colormap :: nat
  rad :: nat
  threshold :: nat

definition program_settings :: settings where
  "program_settings =
     \<lparr>width = 256, height = 192, scale = 3, newWidth = 256 * 3, newHeight = 192 * 3,
      alpha = 1.0, colormap = 0, rad = 0, threshold = 2\<rparr>"

text \<open>Lines 124 to 131: from the visual half to the false-colour image.\<close>

definition colorize :: "'img cv2 \<Rightarrow> settings \<Rightarrow> raw_frame \<Rightarrow> 'img" where
  "colorize cv st imdata =
     (let bgr = cvtColor cv imdata COLOR_YUV2BGR_YUYV;
          bgr = convertScaleAbs cv bgr (alpha st);
          bgr = resize cv bgr (newWidth st, newHeight st) INTER_CUBIC;
          bgr = (if rad st > 0 then blur cv bgr (rad st, rad st) else bgr)
      in applyColorMap cv bgr COLORMAP_JET)"

text \<open>Lines 134 and 135: the text drawn on the false-colour image.\<close>

definition overlay :: "'img cv2 \<Rightarrow> 'img \<Rightarrow> real \<Rightarrow> 'img" where
  "overlay cv heatmap temp =
     putText cv heatmap (format_1f cv temp @ ''C'') (10, 30) FONT_HERSHEY_SIMPLEX 1
       (255, 255, 255) 2"

text \<open>Lines 114 to 121: the split and the thermal read.\<close>

definition split_and_decode :: "raw_frame \<Rightarrow> error + raw_frame \<times> real" where
  "split_and_decode frame =
     (case array_split2 frame of (imdata, thdata) \<Rightarrow>
      case decode_temp thdata of
        Inl e \<Rightarrow> Inl e
      | Inr temp \<Rightarrow> Inr (imdata, temp))"

text \<open>
  Lines 114 to 135, one frame: the index error of the thermal read, if any, is raised
  before any image operation runs.
\<close>

definition frame_pipeline :: "'img cv2 \<Rightarrow> settings \<Rightarrow> raw_frame \<Rightarrow> error + 'img" where
  "frame_pipeline cv st frame =
     (case split_and_decode frame of
        Inl e \<Rightarrow> Inl e
      | Inr (imdata, temp) \<Rightarrow> Inr (overlay cv (colorize cv st imdata) temp))"

section \<open>The capture loop and the shutdown sequence\<close>

text \<open>
  What the program does to the outside from line 107 on is kept as a log of calls, in
  order; the frame store is the server's state.
\<close>

datatype 'img effect =
    Imshow string 'img
  | WaitKey nat
  | Release
  | Shutdown
  | Server_close
  | DestroyAllWindows
  | Print string

record 'img world =
  server :: "'img server"
  effects :: "'img effect list"

definition emit :: "'img effect list \<Rightarrow> 'img world \<Rightarrow> 'img world" where
  "emit es w = w\<lparr>effects := effects w @ es\<rparr>"

text \<open>
  What the outside does in one turn of the loop: the device is no longer open, the read
  returns no frame, the read returns a frame (with the key code the keyboard poll would
  return, were it made), or the interrupt arrives while the loop waits for the camera.
\<close>

datatype tick = NotOpened | ReadFails | Frame raw_frame int | KeyboardInterrupt

datatype loop_exit = CondFalse | BreakRead | BreakQuit | Interrupted | Raised error

text \<open>
  Lines 108 to 144. The loop has no bound of its own: it runs as long as the camera
  delivers. When the turns given are used up and the loop has not left, the result is
  \<open>None\<close> with the state reached so far.
\<close>

fun capture_loop ::
  "'img cv2 \<Rightarrow> settings \<Rightarrow> bool \<Rightarrow> tick list \<Rightarrow> 'img world \<Rightarrow> loop_exit option \<times> 'img world"
where
  "capture_loop cv st headless [] w = (None, w)"
| "capture_loop cv st headless (NotOpened # ts) w = (Some CondFalse, w)"
| "capture_loop cv st headless (ReadFails # ts) w = (Some BreakRead, w)"
| "capture_loop cv st headless (KeyboardInterrupt # ts) w = (Some Interrupted, w)"
| "capture_loop cv st headless (Frame frame key # ts) w =
     (case frame_pipeline cv st frame of
        Inl e \<Rightarrow> (Some (Raised e), w)
      | Inr heatmap \<Rightarrow>
          let w = w\<lparr>server := set_frame (Some heatmap) (server w)\<rparr> in
          if \<not> headless then
            let w = emit [Imshow ''Thermal'' heatmap, WaitKey 1] w in
            if key AND 0xFF = of_char CHR ''q'' then (Some BreakQuit, w)
            else capture_loop cv st headless ts w
          else capture_loop cv st headless ts w)"

text \<open>Lines 146 to 155: the interrupt handler and the \<^verbatim>\<open>finally\<close> block.\<close>

definition finally_block :: "bool \<Rightarrow> 'img world \<Rightarrow> 'img world" where
  "finally_block headless w =
     (let w = emit [Release, Shutdown, Server_close] w;
          w = (if \<not> headless then emit [DestroyAllWindows] w else w)
      in emit [Print ''Capture ended''] w)"

definition run_capture ::
  "'img cv2 \<Rightarrow> settings \<Rightarrow> bool \<Rightarrow> tick list \<Rightarrow> 'img world \<Rightarrow> loop_exit option \<times> 'img world"
where
  "run_capture cv st headless ts w =
     (case capture_loop cv st headless ts w of
        (None, w') \<Rightarrow> (None, w')
      | (Some ex, w') \<Rightarrow>
          let w' = (if ex = Interrupted then emit [Print ''\<newline>Stopping capture...''] w' else w')
          in (Some ex, finally_block headless w'))"

definition initial_world :: "'img world" where
  "initial_world = \<lparr>server = ThreadedHTTPServer_init, effects = []\<rparr>"


section \<open>The request handler\<close>

text \<open>
  \<^verbatim>\<open>do_GET\<close> acts on the connection through the library's handler methods only. The
  model keeps the calls it makes, in order, with their arguments; the bytes the handler
  itself puts on the wire are the arguments of the \<^verbatim>\<open>wfile.write\<close> calls.
\<close>

datatype response_call =
    Send_response nat
  | Send_header string string
  | End_headers
  | Write bytes
  | Send_error nat

fun written :: "response_call list \<Rightarrow> bytes" where
  "written [] = []"
| "written (Write bs # cs) = bs @ written cs"
| "written (c # cs) = written cs"

definition CRLF :: bytes where
  "CRLF = [CHR 0x0D, CHR 0x0A]"

text \<open>The page of the root path, lines 22 to 32, byte for byte.\<close>

definition index_html :: bytes where
  \<open>index_html =
     ''\<newline>'' @
     ''                <html>\<newline>'' @
     ''                <head>\<newline>'' @
     ''                    <title>Thermal Camera Stream</title>\<newline>'' @
     ''                </head>\<newline>'' @
     ''                <body>\<newline>'' @
     ''                    <h1>Thermal Camera Stream</h1>\<newline>'' @
     ''                    <img src="/stream" />\<newline>'' @
     ''                </body>\<newline>'' @
     ''                </html>\<newline>'' @
     ''            ''\<close>

text \<open>
  A write on a connection whose client has gone raises; the handler's
  \<^verbatim>\<open>except Exception\<close> catches it. Whether the client is still there is sampled once
  per turn of the streaming loop.
\<close>

definition wfile_write :: "bool \<Rightarrow> bytes \<Rightarrow> response_call list \<Rightarrow> error + response_call list" where
  "wfile_write client_up bs out = (if client_up then Inr (out @ [Write bs]) else Inl BrokenPipe)"

text \<open>Lines 39 to 45: one turn of the streaming loop, against the store as it is then.\<close>

definition stream_iteration ::
  "'img cv2 \<Rightarrow> 'img server \<Rightarrow> bool \<Rightarrow> response_call list \<Rightarrow> error + response_call list"
where
  "stream_iteration cv srv client_up out =
     (case get_frame srv of
        None \<Rightarrow> Inr out
      | Some frame \<Rightarrow>
          let jpeg = imencode cv ''.jpg'' frame in
          case wfile_write client_up (''--frame'' @ CRLF) out of Inl e \<Rightarrow> Inl e | Inr out \<Rightarrow>
          case wfile_write client_up (''Content-Type: image/jpeg'' @ CRLF @ CRLF) out of
            Inl e \<Rightarrow> Inl e | Inr out \<Rightarrow>
          case wfile_write client_up jpeg out of Inl e \<Rightarrow> Inl e | Inr out \<Rightarrow>
          wfile_write client_up CRLF out)"

text \<open>
  Lines 37 to 47. The loop is \<^verbatim>\<open>while True\<close>: it ends only by an exception. Each
  turn is given the store and the state of the client at that moment; when the turns given
  are used up the loop is still running (\<open>None\<close>).
\<close>

fun stream_loop ::
  "'img cv2 \<Rightarrow> ('img server \<times> bool) list \<Rightarrow> response_call list \<Rightarrow> error option \<times> response_call list"
where
  "stream_loop cv [] out = (None, out)"
| "stream_loop cv ((srv, client_up) # turns) out =
     (case stream_iteration cv srv client_up out of
        Inl e \<Rightarrow> (Some e, out)
      | Inr out' \<Rightarrow> stream_loop cv turns out')"

text \<open>The calls one turn of the loop adds when the client is there.\<close>

definition part_calls :: "'img cv2 \<Rightarrow> 'img server \<Rightarrow> response_call list" where
  "part_calls cv srv =
     (case get_frame srv of
        None \<Rightarrow> []
      | Some frame \<Rightarrow>
          [Write (''--frame'' @ CRLF), Write (''Content-Type: image/jpeg'' @ CRLF @ CRLF),
           Write (imencode cv ''.jpg'' frame), Write CRLF])"

datatype handler_status = Returned | Streaming_error error | Still_streaming

text \<open>Lines 17 to 50.\<close>

definition do_GET ::
  "'img cv2 \<Rightarrow> string \<Rightarrow> ('img server \<times> bool) list \<Rightarrow> handler_status \<times> response_call list"
where
  "do_GET cv path turns =
     (if path = ''/'' then
        (Returned,
         [Send_response 200, Send_header ''Content-type'' ''text/html'', End_headers,
          Write index_html])
      else if path = ''/stream'' then
        (case stream_loop cv turns
                [Send_response 200,
                 Send_header ''Content-type'' ''multipart/x-mixed-replace; boundary=frame'',
                 End_headers] of
           (None, out) \<Rightarrow> (Still_streaming, out)
         | (Some e, out) \<Rightarrow> (Streaming_error e, out))
      else (Returned, [Send_error 404, End_headers]))"

section \<open>The capture thread and the connection threads, interleaved\<close>

text \<open>
  The store holds a reference to an array, and \<^verbatim>\<open>cv2.putText\<close> changes the array it
  is given in place. What a connection thread sees through the reference it got from
  \<^verbatim>\<open>get_frame\<close> therefore depends on who writes to that array, and when. This model
  makes the arrays explicit: a heap of pixel arrays (an address is an index; arrays are
  never freed while referenced, and the model never frees), the store holding an address,
  and the threads taking steps in any order.

  The capture thread reads a frame and computes the false-colour image into a fresh
  array (\<open>Cap_read\<close>, lines 109 to 131), draws the text into that array one pixel at a
  time (\<open>Cap_draw\<close>, lines 134 and 135), and then stores the reference
  (\<open>Cap_publish\<close>, line 138). A connection thread takes the reference from the store
  (\<open>Conn_get\<close>, line 39) and the encoder then reads the array one pixel at a time
  (\<open>Conn_encode\<close>, line 41); what it has read when it reaches the end is what it encodes
  and sends. Each step is atomic; steps of different threads interleave freely.
\<close>

type_synonym addr = nat
type_synonym pixels = "byte list"

text \<open>The array while the text is being drawn: the first \<open>i\<close> pixels are already the new ones.\<close>

definition partial_draw :: "pixels \<Rightarrow> pixels \<Rightarrow> nat \<Rightarrow> pixels" where
  "partial_draw old new i = take i new @ drop i old"

record conn_state =
  c_frame :: "addr option"
  c_buf :: "pixels option"
  c_seen :: "pixels list"

datatype cap_state = Idle | Drawing addr pixels pixels nat | Stopped

text \<open>
  \<open>s_published\<close> is a history: the contents of each array at the moment its reference
  was stored. The program has no such variable; the statements below use it to say what
  was published.
\<close>

record sys =
  s_server :: "addr server"
  s_heap :: "pixels list"
  s_cap :: cap_state
  s_conns :: "nat \<Rightarrow> conn_state"
  s_published :: "pixels list"

datatype event =
    Cap_read "raw_frame option"
  | Cap_draw
  | Cap_publish
  | Conn_get nat
  | Conn_encode nat

text \<open>One step; \<open>None\<close> when the thread is not at that point of its code.\<close>

fun step :: "pixels cv2 \<Rightarrow> settings \<Rightarrow> event \<Rightarrow> sys \<Rightarrow> sys option" where
  "step cv st (Cap_read r) s =
     (case s_cap s of
        Idle \<Rightarrow>
          (case r of
             None \<Rightarrow> Some (s\<lparr>s_cap := Stopped\<rparr>)
           | Some raw \<Rightarrow>
               (case split_and_decode raw of
                  Inl e \<Rightarrow> Some (s\<lparr>s_cap := Stopped\<rparr>)
                | Inr (imdata, temp) \<Rightarrow>
                    let heatmap = colorize cv st imdata in
                    Some (s\<lparr>s_heap := s_heap s @ [heatmap],
                            s_cap := Drawing (length (s_heap s)) heatmap
                                       (overlay cv heatmap temp) 0\<rparr>)))
      | _ \<Rightarrow> None)"
| "step cv st Cap_draw s =
     (case s_cap s of
        Drawing a old new i \<Rightarrow>
          if i < max (length old) (length new)
          then Some (s\<lparr>s_heap := (s_heap s)[a := partial_draw old new (Suc i)],
                       s_cap := Drawing a old new (Suc i)\<rparr>)
          else None
      | _ \<Rightarrow> None)"
| "step cv st Cap_publish s =
     (case s_cap s of
        Drawing a old new i \<Rightarrow>
          if i < max (length old) (length new) \<or> length (s_heap s) \<le> a then None
          else Some (s\<lparr>s_server := set_frame (Some a) (s_server s),
                       s_published := s_published s @ [s_heap s ! a],
                       s_cap := Idle\<rparr>)
      | _ \<Rightarrow> None)"
| "step cv st (Conn_get k) s =
     (let c = s_conns s k in
      case c_buf c of
        Some b \<Rightarrow> None
      | None \<Rightarrow>
          let fr = get_frame (s_server s) in
          Some (s\<lparr>s_conns := (s_conns s)
                    (k := c\<lparr>c_frame := fr,
                           c_buf := (case fr of None \<Rightarrow> None | Some a \<Rightarrow> Some [])\<rparr>)\<rparr>))"
| "step cv st (Conn_encode k) s =
     (let c = s_conns s k in
      case (c_frame c, c_buf c) of
        (Some a, Some b) \<Rightarrow>
          if length (s_heap s) \<le> a then None
          else if length b < length (s_heap s ! a)
          then Some (s\<lparr>s_conns := (s_conns s)
                         (k := c\<lparr>c_buf := Some (b @ [s_heap s ! a ! length b])\<rparr>)\<rparr>)
          else Some (s\<lparr>s_conns := (s_conns s)
                         (k := c\<lparr>c_buf := None, c_seen := c_seen c @ [b]\<rparr>)\<rparr>)
      | _ \<Rightarrow> None)"

fun run :: "pixels cv2 \<Rightarrow> settings \<Rightarrow> event list \<Rightarrow> sys \<Rightarrow> sys option" where
  "run cv st [] s = Some s"
| "run cv st (e # es) s = (case step cv st e s of None \<Rightarrow> None | Some s' \<Rightarrow> run cv st es s')"

definition init_sys :: sys where
  "init_sys =
     \<lparr>s_server = ThreadedHTTPServer_init, s_heap = [], s_cap = Idle,
      s_conns = (\<lambda>k. \<lparr>c_frame = None, c_buf = None, c_seen = []\<rparr>), s_published = []\<rparr>"

text \<open>An array is settled when it is allocated and the capture thread is not drawing into it.\<close>

definition settled :: "sys \<Rightarrow> addr \<Rightarrow> bool" where
  "settled s a =
     (a < length (s_heap s) \<and> (case s_cap s of Drawing a' old new i \<Rightarrow> a' \<noteq> a | _ \<Rightarrow> True))"

definition annotated :: "pixels cv2 \<Rightarrow> settings \<Rightarrow> pixels \<Rightarrow> bool" where
  "annotated cv st img = (\<exists>raw. frame_pipeline cv st raw = Inr img)"

text \<open>What holds in every state the interleaved threads can reach.\<close>

definition sys_inv :: "pixels cv2 \<Rightarrow> settings \<Rightarrow> sys \<Rightarrow> bool" where
  "sys_inv cv st s =
     ((\<forall>a. settled s a \<longrightarrow> s_heap s ! a \<in> set (s_published s)) \<and>
      (case s_cap s of
         Drawing a old new i \<Rightarrow>
           Suc a = length (s_heap s) \<and> s_heap s ! a = partial_draw old new i \<and>
           annotated cv st new
       | _ \<Rightarrow> True) \<and>
      (\<forall>a. current_frame (s_server s) = Some a \<longrightarrow> settled s a) \<and>
      (\<forall>k a. c_frame (s_conns s k) = Some a \<longrightarrow> settled s a) \<and>
      (\<forall>k b. c_buf (s_conns s k) = Some b \<longrightarrow>
          (\<exists>a. c_frame (s_conns s k) = Some a \<and> b = take (length b) (s_heap s ! a))) \<and>
      (\<forall>k. set (c_seen (s_conns s k)) \<subseteq> set (s_published s)) \<and>
      (\<forall>img \<in> set (s_published s). annotated cv st img))"

section \<open>The temperature formula as the specification words it\<close>

text \<open>
  The formula as the specification words it, with \<open>low\<close> the first and \<open>high\<close> the
  second byte of the reading.
\<close>

definition spec_temperature :: "byte \<Rightarrow> byte \<Rightarrow> real" where
  "spec_temperature low high = (real_of_int (uint low * 256 + uint high) / 64) - 273.15"

section \<open>Concrete inputs\<close>

text \<open>
  Image operations that record which operations were applied, in order, instead of
  computing pixels.
\<close>

text \<open>
  Image operations on two-pixel arrays: the image is the first pixel of the frame, and
  drawing the text adds one to each of its bytes.
\<close>

definition toy_cv2 :: "pixels cv2" where
  "toy_cv2 =
     \<lparr>cvtColor = (\<lambda>raw code. concat (take 1 (concat (take 1 raw)))),
      convertScaleAbs = (\<lambda>img a. img),
      resize = (\<lambda>img size interp. img),
      blur = (\<lambda>img ksize. img),
      applyColorMap = (\<lambda>img cm. img),
      putText = (\<lambda>img text org face fscale color thickness. map (\<lambda>p. p + 1) img),
      imencode = (\<lambda>ext img. map (\<lambda>p. char_of (uint p)) img),
      format_1f = (\<lambda>temp. '''')\<rparr>"

definition tracing_cv2 :: "string list cv2" where
  "tracing_cv2 =
     \<lparr>cvtColor = (\<lambda>raw code. [''cvtColor'']),
      convertScaleAbs = (\<lambda>img a. img @ [''convertScaleAbs'']),
      resize = (\<lambda>img size interp. img @ [''resize'']),
      blur = (\<lambda>img ksize. img @ [''blur'']),
      applyColorMap = (\<lambda>img cm. img @ [''applyColorMap'']),
      putText = (\<lambda>img text org face fscale color thickness. img @ [''putText'', text]),
      imencode = (\<lambda>ext img. concat img),
      format_1f = (\<lambda>temp. ''t'')\<rparr>"

text \<open>
  A frame of the camera's shape, 384 rows of 256 two-byte pixels, every byte \<open>bg\<close> except
  the two bytes of the thermal reading at row 96, column 128 of the lower half.
\<close>

definition sample_frame :: "byte \<Rightarrow> byte \<Rightarrow> byte \<Rightarrow> raw_frame" where
  "sample_frame bg b0 b1 =
     replicate 192 (replicate 256 [bg, bg]) @
     replicate 96 (replicate 256 [bg, bg]) @
     [replicate 128 [bg, bg] @ [[b0, b1]] @ replicate 127 [bg, bg]] @
     replicate 95 (replicate 256 [bg, bg])"

section \<open>Temperature decoding\<close>

lemma decode_temp_in_range:
  assumes "96 < length thdata" "128 < length (thdata ! 96)" "1 < length (thdata ! 96 ! 128)"
  shows "decode_temp thdata = Inr (temp_of_bytes (thdata ! 96 ! 128 ! 0) (thdata ! 96 ! 128 ! 1))"
  using assms by (auto simp: decode_temp_def getitem_def)

lemma frame_temp_sample:
  "sample_bytes frame = Some (b0, b1) \<Longrightarrow> frame_temp frame = Inr (temp_of_bytes b0 b1)"
  by (auto simp: sample_bytes_def frame_temp_def Let_def decode_temp_in_range
           split: if_splits prod.splits)

lemma frame_temp_no_sample:
  "sample_bytes frame = None \<Longrightarrow> frame_temp frame = Inl IndexError"
  by (auto simp: sample_bytes_def frame_temp_def Let_def decode_temp_def getitem_def
           split: if_splits prod.splits)

lemma array_split2_sample_frame:
  "array_split2 (sample_frame bg b0 b1) =
     (replicate 192 (replicate 256 [bg, bg]),
      replicate 96 (replicate 256 [bg, bg]) @
      [replicate 128 [bg, bg] @ [[b0, b1]] @ replicate 127 [bg, bg]] @
      replicate 95 (replicate 256 [bg, bg]))"
  by (simp add: array_split2_def sample_frame_def)

lemma sample_bytes_sample_frame: "sample_bytes (sample_frame bg b0 b1) = Some (b0, b1)"
  by (simp add: sample_bytes_def array_split2_sample_frame nth_append)

text \<open>
  C1, as amended: for every raw frame that has the thermal sample, the decoded temperature
  is \<open>((second * 256 + first) / 64) - 273.15\<close>, where \<open>first\<close> and \<open>second\<close> are
  the first and the second byte of the reading at row 96, column 128 of the thermal half:
  the second byte is the high-order one.
\<close>

theorem temperature_second_byte_high:
  "sample_bytes frame = Some (b0, b1) \<Longrightarrow>
   frame_temp frame = Inr ((real_of_int (uint b1 * 256 + uint b0) / 64) - 273.15)"
  by (simp add: frame_temp_sample temp_of_bytes_def Let_def add.commute)

theorem temperature_second_byte_high_witness:
  "sample_bytes (sample_frame 0 64 0) = Some (64, 0) \<and>
   frame_temp (sample_frame 0 64 0) = Inr (- 272.15)"
  using temperature_second_byte_high [OF sample_bytes_sample_frame, of 0 64 0]
  by (simp add: sample_bytes_sample_frame)

text \<open>
  C1, as the claim words it (first byte times 256 plus second byte), fails on the frame
  whose reading is the bytes 64, 0: the program decodes it to -272.15, the claim's formula
  gives -17.15.
\<close>

theorem temperature_first_byte_high_counterexample:
  "frame_temp (sample_frame 0 64 0) \<noteq> Inr (spec_temperature 64 0)"
  by (simp add: frame_temp_sample [OF sample_bytes_sample_frame] temp_of_bytes_def
                spec_temperature_def)

text \<open>
  C2: the temperature depends on the frame only through the two bytes of the reading at
  (96, 128); the bytes 0, 0 decode to -273.15 and the bytes 64, 0 to -272.15.
\<close>

theorem temperature_pure_and_sanity:
  "(sample_bytes f = sample_bytes g \<longrightarrow> frame_temp f = frame_temp g) \<and>
   (sample_bytes f0 = Some (0, 0) \<longrightarrow> frame_temp f0 = Inr (- 273.15)) \<and>
   (sample_bytes f64 = Some (64, 0) \<longrightarrow> frame_temp f64 = Inr (- 272.15))"
proof (intro conjI impI)
  assume eq: "sample_bytes f = sample_bytes g"
  show "frame_temp f = frame_temp g"
  proof (cases "sample_bytes f")
    case None
    with eq show ?thesis by (simp add: frame_temp_no_sample)
  next
    case (Some p)
    then obtain b0 b1 where "sample_bytes f = Some (b0, b1)" by (cases p) simp
    with eq have "sample_bytes g = Some (b0, b1)" by simp
    with \<open>sample_bytes f = Some (b0, b1)\<close> show ?thesis by (simp add: frame_temp_sample)
  qed
next
  assume "sample_bytes f0 = Some (0, 0)"
  then show "frame_temp f0 = Inr (- 273.15)"
    by (simp add: frame_temp_sample temp_of_bytes_def)
next
  assume "sample_bytes f64 = Some (64, 0)"
  then show "frame_temp f64 = Inr (- 272.15)"
    by (simp add: frame_temp_sample temp_of_bytes_def)
qed

theorem temperature_pure_and_sanity_witness:
  "sample_bytes (sample_frame 0 64 0) = sample_bytes (sample_frame 7 64 0) \<and>
   frame_temp (sample_frame 0 64 0) = frame_temp (sample_frame 7 64 0) \<and>
   sample_bytes (sample_frame 0 0 0) = Some (0, 0) \<and>
   frame_temp (sample_frame 0 0 0) = Inr (- 273.15) \<and>
   sample_bytes (sample_frame 0 64 0) = Some (64, 0) \<and>
   frame_temp (sample_frame 0 64 0) = Inr (- 272.15)"
proof -
  show ?thesis
    using temperature_pure_and_sanity
            [of "sample_frame 0 64 0" "sample_frame 7 64 0"
                "sample_frame 0 0 0" "sample_frame 0 64 0"]
    by (auto simp: sample_bytes_sample_frame)
qed

section \<open>Reading the store before the first publish\<close>

lemma store_run_reads:
  "list_all (\<lambda>c. c = Read) cs \<Longrightarrow>
   fst (store_run (cs @ rest) self) =
     replicate (length cs) (get_frame self) @ fst (store_run rest self)"
  by (induction cs) (auto split: prod.splits)

text \<open>
  C3: the store is empty when the server is constructed, and every read made before the
  first publish returns \<open>None\<close>, whatever calls follow.
\<close>

theorem read_before_publish_is_None:
  "current_frame ThreadedHTTPServer_init = None \<and>
   (list_all (\<lambda>c. c = Read) cs \<longrightarrow>
    take (length cs) (fst (store_run (cs @ rest) ThreadedHTTPServer_init))
      = replicate (length cs) None)"
  by (simp add: store_run_reads) (simp add: ThreadedHTTPServer_init_def get_frame_def)

theorem read_before_publish_is_None_witness:
  "list_all (\<lambda>c. c = Read) [Read, Read :: nat store_call] \<and>
   fst (store_run ([Read, Read] @ [Publish (5::nat), Read]) ThreadedHTTPServer_init)
     = [None, None, Some 5]"
  using read_before_publish_is_None [of "[Read, Read :: nat store_call]" "[Publish 5, Read]"]
  by (simp add: ThreadedHTTPServer_init_def get_frame_def set_frame_def)

section \<open>The published frame\<close>

lemma array_split2_even:
  "even (length ary) \<Longrightarrow>
   array_split2 ary = (take (length ary div 2) ary, drop (length ary div 2) ary)"
  by (auto simp: array_split2_def Let_def)

lemma split_and_decode_sample:
  "sample_bytes frame = Some (b0, b1) \<Longrightarrow>
   split_and_decode frame = Inr (fst (array_split2 frame), temp_of_bytes b0 b1)"
  using frame_temp_sample [of frame b0 b1]
  by (auto simp: split_and_decode_def frame_temp_def split: prod.splits)


lemma frame_pipeline_sample:
  "sample_bytes frame = Some (b0, b1) \<Longrightarrow>
   frame_pipeline cv st frame =
     Inr (overlay cv (colorize cv st (fst (array_split2 frame))) (temp_of_bytes b0 b1))"
  by (simp add: frame_pipeline_def split_and_decode_sample)


lemma capture_loop_one_frame:
  "frame_pipeline cv st frame = Inr heatmap \<Longrightarrow>
   current_frame (server (snd (capture_loop cv st headless [Frame frame key] w))) = Some heatmap"
  by (simp add: set_frame_def emit_def Let_def)

lemma length_sample_frame: "length (sample_frame bg b0 b1) = 384"
  by (simp add: sample_frame_def)

text \<open>
  C7: for a frame with an even number of rows that has the thermal sample, one turn of
  the capture loop leaves in the store the image obtained from the top half of the rows by
  colour conversion, brightness scaling, cubic resize to the configured size, blur only
  when the radius is positive, the jet colour map, and last the temperature text at
  (10, 30). Under the program's settings the size is 3 times 256 by 192, that is 768 by 576,
  and the radius is not positive.
\<close>

theorem published_frame_is_pipeline:
  assumes "even (length frame)" and "sample_bytes frame = Some (b0, b1)"
  shows
   "current_frame (server (snd (capture_loop cv st headless [Frame frame key] w))) =
      Some (putText cv
             (applyColorMap cv
               (let bgr = resize cv
                            (convertScaleAbs cv
                              (cvtColor cv (take (length frame div 2) frame) COLOR_YUV2BGR_YUYV)
                              (alpha st))
                            (newWidth st, newHeight st) INTER_CUBIC
                in if 0 < rad st then blur cv bgr (rad st, rad st) else bgr)
               COLORMAP_JET)
             (format_1f cv (temp_of_bytes b0 b1) @ ''C'') (10, 30) FONT_HERSHEY_SIMPLEX 1
             (255, 255, 255) 2)
    \<and> (newWidth program_settings, newHeight program_settings)
         = (scale program_settings * width program_settings,
            scale program_settings * height program_settings)
    \<and> scale program_settings = 3
    \<and> (newWidth program_settings, newHeight program_settings) = (768, 576)
    \<and> \<not> 0 < rad program_settings"
proof -
  have "frame_pipeline cv st frame =
     Inr (overlay cv (colorize cv st (take (length frame div 2) frame)) (temp_of_bytes b0 b1))"
    using assms by (simp add: frame_pipeline_sample array_split2_even)
  from capture_loop_one_frame [OF this, of headless key w]
  have "current_frame (server (snd (capture_loop cv st headless [Frame frame key] w))) =
     Some (overlay cv (colorize cv st (take (length frame div 2) frame)) (temp_of_bytes b0 b1))" .
  moreover have "(newWidth program_settings, newHeight program_settings) = (768, 576)"
    by (simp add: program_settings_def)
  moreover have "scale program_settings = 3" "rad program_settings = 0"
    "width program_settings = 256" "height program_settings = 192"
    by (simp_all add: program_settings_def)
  ultimately show ?thesis
    by (simp add: overlay_def colorize_def Let_def)
qed

theorem published_frame_is_pipeline_witness:
  "even (length (sample_frame 0 64 0)) \<and>
   sample_bytes (sample_frame 0 64 0) = Some (64, 0) \<and>
   current_frame (server (snd (capture_loop tracing_cv2 program_settings True
                                 [Frame (sample_frame 0 64 0) 0] initial_world))) =
     Some [''cvtColor'', ''convertScaleAbs'', ''resize'', ''applyColorMap'', ''putText'', ''tC'']"
proof -
  have e: "even (length (sample_frame 0 64 0))" by (simp add: length_sample_frame)
  show ?thesis
    using published_frame_is_pipeline [OF e sample_bytes_sample_frame,
            of tracing_cv2 program_settings True 0 initial_world]
    by (simp add: e sample_bytes_sample_frame)
       (simp add: tracing_cv2_def program_settings_def)
qed

section \<open>Leaving the capture loop\<close>

lemma capture_loop_append:
  "capture_loop cv st headless pre w = (None, w1) \<Longrightarrow>
   capture_loop cv st headless (pre @ ts) w = capture_loop cv st headless ts w1"
  by (induction cv st headless pre w rule: capture_loop.induct)
     (auto simp: Let_def split: sum.splits if_splits)

text \<open>
  C6: when the loop is still running after some turns and the next read returns no frame,
  the loop leaves at once through the \<^verbatim>\<open>break\<close> of line 111: the store stays as the
  turns before left it, whatever the camera would deliver afterwards is never looked at,
  and the \<^verbatim>\<open>finally\<close> block releases the camera, shuts the server down and closes it.
\<close>

theorem read_failure_ends_capture:
  assumes "capture_loop cv st headless pre w = (None, w1)"
  shows "run_capture cv st headless (pre @ ReadFails # post) w =
           (Some BreakRead,
            w1\<lparr>effects := effects w1 @ [Release, Shutdown, Server_close] @
                           (if headless then [] else [DestroyAllWindows]) @
                           [Print ''Capture ended'']\<rparr>)"
  by (simp add: run_capture_def capture_loop_append [OF assms] finally_block_def emit_def)

theorem read_failure_ends_capture_witness:
  "capture_loop tracing_cv2 program_settings False [Frame (sample_frame 0 64 0) 0] initial_world
     = (None,
        \<lparr>server = \<lparr>current_frame = Some [''cvtColor'', ''convertScaleAbs'', ''resize'',
                                        ''applyColorMap'', ''putText'', ''tC'']\<rparr>,
         effects = [Imshow ''Thermal'' [''cvtColor'', ''convertScaleAbs'', ''resize'',
                                       ''applyColorMap'', ''putText'', ''tC''], WaitKey 1]\<rparr>) \<and>
   run_capture tracing_cv2 program_settings False
       ([Frame (sample_frame 0 64 0) 0] @ ReadFails # [Frame (sample_frame 0 0 0) 0])
       initial_world
     = (Some BreakRead,
        \<lparr>server = \<lparr>current_frame = Some [''cvtColor'', ''convertScaleAbs'', ''resize'',
                                        ''applyColorMap'', ''putText'', ''tC'']\<rparr>,
         effects = [Imshow ''Thermal'' [''cvtColor'', ''convertScaleAbs'', ''resize'',
                                       ''applyColorMap'', ''putText'', ''tC''], WaitKey 1,
                    Release, Shutdown, Server_close, DestroyAllWindows,
                    Print ''Capture ended'']\<rparr>)"
proof -
  have l: "capture_loop tracing_cv2 program_settings False [Frame (sample_frame 0 64 0) 0]
             initial_world
     = (None,
        \<lparr>server = \<lparr>current_frame = Some [''cvtColor'', ''convertScaleAbs'', ''resize'',
                                        ''applyColorMap'', ''putText'', ''tC'']\<rparr>,
         effects = [Imshow ''Thermal'' [''cvtColor'', ''convertScaleAbs'', ''resize'',
                                       ''applyColorMap'', ''putText'', ''tC''], WaitKey 1]\<rparr>)"
    by (simp add: frame_pipeline_sample [OF sample_bytes_sample_frame] overlay_def
          colorize_def tracing_cv2_def program_settings_def initial_world_def
          ThreadedHTTPServer_init_def set_frame_def emit_def Let_def)
  have "run_capture tracing_cv2 program_settings False
       ([Frame (sample_frame 0 64 0) 0] @ ReadFails # [Frame (sample_frame 0 0 0) 0])
       initial_world
     = (Some BreakRead,
        \<lparr>server = \<lparr>current_frame = Some [''cvtColor'', ''convertScaleAbs'', ''resize'',
                                        ''applyColorMap'', ''putText'', ''tC'']\<rparr>,
         effects = [Imshow ''Thermal'' [''cvtColor'', ''convertScaleAbs'', ''resize'',
                                       ''applyColorMap'', ''putText'', ''tC''], WaitKey 1,
                    Release, Shutdown, Server_close, DestroyAllWindows,
                    Print ''Capture ended'']\<rparr>)"
    using read_failure_ends_capture [OF l, of "[Frame (sample_frame 0 0 0) 0]"] by simp
  with l show ?thesis by (rule conjI)
qed






section \<open>The streaming handler\<close>

lemma written_append: "written (xs @ ys) = written xs @ written ys"
  by (induction xs rule: written.induct) simp_all

lemma stream_iteration_None:
  "get_frame srv = None \<Longrightarrow> stream_iteration cv srv client_up out = Inr out"
  by (simp add: stream_iteration_def)

lemma stream_iteration_Some:
  "get_frame srv = Some frame \<Longrightarrow>
   stream_iteration cv srv True out =
     Inr (out @ [Write (''--frame'' @ CRLF), Write (''Content-Type: image/jpeg'' @ CRLF @ CRLF),
                 Write (imencode cv ''.jpg'' frame), Write CRLF])"
  by (simp add: stream_iteration_def wfile_write_def)

lemma stream_iteration_down:
  "get_frame srv = Some frame \<Longrightarrow> stream_iteration cv srv False out = Inl BrokenPipe"
  by (simp add: stream_iteration_def wfile_write_def)

lemma stream_loop_up:
  "list_all snd turns \<Longrightarrow>
   stream_loop cv turns out = (None, out @ concat (map (\<lambda>t. part_calls cv (fst t)) turns))"
proof (induction turns arbitrary: out)
  case Nil
  then show ?case by simp
next
  case (Cons t turns)
  obtain srv up where t: "t = (srv, up)" by (cases t)
  with Cons.prems have up: "up" and rest: "list_all snd turns" by simp_all
  show ?case
  proof (cases "get_frame srv")
    case None
    with Cons.IH [OF rest] t show ?thesis
      by (simp add: stream_iteration_None part_calls_def)
  next
    case (Some frame)
    with Cons.IH [OF rest] t up show ?thesis
      by (simp add: stream_iteration_Some part_calls_def)
  qed
qed

text \<open>
  C4: on a \<^verbatim>\<open>/stream\<close> connection whose client stays, the handler first sends status
  200 and the header \<^verbatim>\<open>Content-type: multipart/x-mixed-replace; boundary=frame\<close>, and
  the bytes it then writes are, for each turn that found a frame, exactly one part: the
  line \<^verbatim>\<open>--frame\<close>, the line \<^verbatim>\<open>Content-Type: image/jpeg\<close>, an empty line, the
  JPEG bytes and a line break, in this order and with nothing in between.
\<close>

theorem stream_part_framing:
  assumes "list_all snd turns"
  shows "fst (do_GET cv ''/stream'' turns) = Still_streaming \<and>
         take 3 (snd (do_GET cv ''/stream'' turns)) =
           [Send_response 200,
            Send_header ''Content-type'' ''multipart/x-mixed-replace; boundary=frame'',
            End_headers] \<and>
         written (snd (do_GET cv ''/stream'' turns)) =
           concat (map (\<lambda>(srv, up). case get_frame srv of None \<Rightarrow> []
                        | Some frame \<Rightarrow>
                            ''--frame'' @ [CHR 0x0D, CHR 0x0A] @
                            ''Content-Type: image/jpeg'' @ [CHR 0x0D, CHR 0x0A] @
                            [CHR 0x0D, CHR 0x0A] @
                            imencode cv ''.jpg'' frame @
                            [CHR 0x0D, CHR 0x0A]) turns)"
proof -
  have w: "written (concat (map (\<lambda>t. part_calls cv (fst t)) ts)) =
        concat (map (\<lambda>(srv, up). case get_frame srv of None \<Rightarrow> []
                        | Some frame \<Rightarrow>
                            ''--frame'' @ [CHR 0x0D, CHR 0x0A] @
                            ''Content-Type: image/jpeg'' @ [CHR 0x0D, CHR 0x0A] @
                            [CHR 0x0D, CHR 0x0A] @
                            imencode cv ''.jpg'' frame @
                            [CHR 0x0D, CHR 0x0A]) ts)" for ts
    by (induction ts) (auto simp: written_append part_calls_def CRLF_def split: option.splits)
  show ?thesis
    by (simp add: do_GET_def stream_loop_up [OF assms] written_append w)
qed

theorem stream_part_framing_witness:
  "list_all snd [(ThreadedHTTPServer_init, True), (\<lparr>current_frame = Some [''ab'']\<rparr>, True)] \<and>
   written (snd (do_GET tracing_cv2 ''/stream''
                   [(ThreadedHTTPServer_init, True), (\<lparr>current_frame = Some [''ab'']\<rparr>, True)]))
     = ''--frame'' @ [CHR 0x0D, CHR 0x0A] @ ''Content-Type: image/jpeg'' @
       [CHR 0x0D, CHR 0x0A, CHR 0x0D, CHR 0x0A] @ ''ab'' @ [CHR 0x0D, CHR 0x0A]"
proof -
  have h: "list_all snd
             [(ThreadedHTTPServer_init :: string list server, True),
              (\<lparr>current_frame = Some [''ab'']\<rparr>, True)]"
    by simp
  show ?thesis
    using stream_part_framing [OF h, of tracing_cv2]
    by (simp add: get_frame_def ThreadedHTTPServer_init_def tracing_cv2_def)
qed

text \<open>
  C8: a path that is neither \<^verbatim>\<open>/\<close> nor \<^verbatim>\<open>/stream\<close> gets \<^verbatim>\<open>send_error(404)\<close> and
  the handler writes nothing itself, whatever the store holds; the path \<^verbatim>\<open>/\<close> gets
  status 200 and the page, which contains the image tag whose source is
  \<^verbatim>\<open>/stream\<close>.
\<close>

theorem other_paths_404:
  \<open>(path \<noteq> ''/'' \<and> path \<noteq> ''/stream'' \<longrightarrow>
      do_GET cv path turns = (Returned, [Send_error 404, End_headers]) \<and>
      written (snd (do_GET cv path turns)) = []) \<and>
   do_GET cv ''/'' turns =
     (Returned,
      [Send_response 200, Send_header ''Content-type'' ''text/html'', End_headers,
       Write index_html]) \<and>
   sublist ''<img src="/stream" />'' index_html\<close>
proof -
  have \<open>sublist ''<img src="/stream" />'' index_html\<close>
  proof -
    have \<open>index_html =
       (''\<newline>'' @
        ''                <html>\<newline>'' @
        ''                <head>\<newline>'' @
        ''                    <title>Thermal Camera Stream</title>\<newline>'' @
        ''                </head>\<newline>'' @
        ''                <body>\<newline>'' @
        ''                    <h1>Thermal Camera Stream</h1>\<newline>'' @
        ''                    '') @
       ''<img src="/stream" />'' @
       (''\<newline>'' @
        ''                </body>\<newline>'' @
        ''                </html>\<newline>'' @
        ''            '')\<close>
      by (simp add: index_html_def)
    then show ?thesis unfolding sublist_def by blast
  qed
  then show ?thesis by (simp add: do_GET_def)
qed

theorem other_paths_404_witness:
  "''/video'' \<noteq> ''/'' \<and> ''/video'' \<noteq> ''/stream'' \<and>
   do_GET tracing_cv2 ''/video'' [(\<lparr>current_frame = Some [''ab'']\<rparr>, True)]
     = (Returned, [Send_error 404, End_headers])"
  using other_paths_404 [of "''/video''" tracing_cv2 "[(\<lparr>current_frame = Some [''ab'']\<rparr>, True)]"]
  by simp

text \<open>
  C9: a turn of the streaming loop that finds the store empty writes nothing; a turn
  that finds a frame, with the client there, writes exactly the four pieces of one part;
  a turn that completes has written bytes if and only if it found a frame; and while every
  turn finds the store empty the connection has received the response headers and
  nothing else.
\<close>

theorem stream_iteration_writes_iff_frame:
  "(get_frame srv0 = None \<longrightarrow> stream_iteration cv srv0 up0 out0 = Inr out0) \<and>
   (get_frame srv1 = Some frame \<longrightarrow>
      stream_iteration cv srv1 True out =
        Inr (out @ [Write (''--frame'' @ CRLF),
                    Write (''Content-Type: image/jpeg'' @ CRLF @ CRLF),
                    Write (imencode cv ''.jpg'' frame), Write CRLF])) \<and>
   (stream_iteration cv srv client_up out = Inr out' \<longrightarrow>
      (written out' \<noteq> written out) = (get_frame srv \<noteq> None)) \<and>
   (list_all (\<lambda>(s, up). get_frame s = None) turns \<longrightarrow>
      do_GET cv ''/stream'' turns =
        (Still_streaming,
         [Send_response 200,
          Send_header ''Content-type'' ''multipart/x-mixed-replace; boundary=frame'',
          End_headers]))"
proof (intro conjI impI)
  assume "stream_iteration cv srv client_up out = Inr out'"
  then show "(written out' \<noteq> written out) = (get_frame srv \<noteq> None)"
    by (cases "get_frame srv"; cases client_up)
       (auto simp: stream_iteration_None stream_iteration_Some stream_iteration_down
                   written_append)
next
  assume "list_all (\<lambda>(s, up). get_frame s = None) turns"
  then have "stream_loop cv turns out = (None, out)" for out
    by (induction turns arbitrary: out) (auto simp: stream_iteration_None)
  then show "do_GET cv ''/stream'' turns =
        (Still_streaming,
         [Send_response 200,
          Send_header ''Content-type'' ''multipart/x-mixed-replace; boundary=frame'',
          End_headers])"
    by (simp add: do_GET_def)
qed (simp_all add: stream_iteration_None stream_iteration_Some)

theorem stream_iteration_writes_iff_frame_witness:
  "get_frame (ThreadedHTTPServer_init :: string list server) = None \<and>
   stream_iteration tracing_cv2 ThreadedHTTPServer_init True [End_headers] = Inr [End_headers] \<and>
   get_frame \<lparr>current_frame = Some [''ab'']\<rparr> = Some [''ab''] \<and>
   stream_iteration tracing_cv2 \<lparr>current_frame = Some [''ab'']\<rparr> True [End_headers] =
     Inr [End_headers, Write (''--frame'' @ CRLF),
          Write (''Content-Type: image/jpeg'' @ CRLF @ CRLF), Write ''ab'', Write CRLF] \<and>
   written [End_headers, Write (''--frame'' @ CRLF),
          Write (''Content-Type: image/jpeg'' @ CRLF @ CRLF), Write ''ab'', Write CRLF]
     \<noteq> written [End_headers] \<and>
   list_all (\<lambda>(s, up). get_frame s = None)
     [(ThreadedHTTPServer_init :: string list server, True), (ThreadedHTTPServer_init, False)] \<and>
   do_GET tracing_cv2 ''/stream''
     [(ThreadedHTTPServer_init, True), (ThreadedHTTPServer_init, False)] =
        (Still_streaming,
         [Send_response 200,
          Send_header ''Content-type'' ''multipart/x-mixed-replace; boundary=frame'',
          End_headers])"
  using stream_iteration_writes_iff_frame
          [of "ThreadedHTTPServer_init" tracing_cv2 True "[End_headers]"
              "\<lparr>current_frame = Some [''ab'']\<rparr>" "[''ab'']" "[End_headers]"
              "\<lparr>current_frame = Some [''ab'']\<rparr>" True
              "[End_headers, Write (''--frame'' @ CRLF),
                Write (''Content-Type: image/jpeg'' @ CRLF @ CRLF), Write ''ab'', Write CRLF]"
              "[(ThreadedHTTPServer_init, True), (ThreadedHTTPServer_init, False)]"]
  by (simp add: get_frame_def ThreadedHTTPServer_init_def tracing_cv2_def)

section \<open>No torn frames\<close>

lemma partial_draw_done:
  "\<not> i < max (length old) (length new) \<Longrightarrow> partial_draw old new i = new"
  by (simp add: partial_draw_def)

lemma inv_init: "sys_inv cv st init_sys"
  by (simp add: sys_inv_def init_sys_def settled_def ThreadedHTTPServer_init_def)

lemma inv_stop:
  assumes "sys_inv cv st s" "s_cap s = Idle"
  shows "sys_inv cv st (s\<lparr>s_cap := Stopped\<rparr>)"
proof -
  have "settled (s\<lparr>s_cap := Stopped\<rparr>) a = settled s a" for a
    using assms(2) by (simp add: settled_def)
  with assms show ?thesis by (simp add: sys_inv_def)
qed

lemma inv_cap_read:
  assumes "sys_inv cv st s" "step cv st (Cap_read r) s = Some s'"
  shows "sys_inv cv st s'"
proof (cases r)
  case None
  with assms have "s_cap s = Idle" "s' = s\<lparr>s_cap := Stopped\<rparr>"
    by (auto split: cap_state.splits)
  with assms(1) show ?thesis by (simp add: inv_stop)
next
  case (Some raw)
  show ?thesis
  proof (cases "split_and_decode raw")
    case (Inl e)
    with assms Some have "s_cap s = Idle" "s' = s\<lparr>s_cap := Stopped\<rparr>"
      by (auto split: cap_state.splits)
    with assms(1) show ?thesis by (simp add: inv_stop)
  next
    case (Inr p)
    obtain imdata temp where p: "p = (imdata, temp)" by (cases p)
    have idle: "s_cap s = Idle" using assms(2) by (auto split: cap_state.splits)
    have s': "s' = s\<lparr>s_heap := s_heap s @ [colorize cv st imdata],
                     s_cap := Drawing (length (s_heap s)) (colorize cv st imdata)
                                (overlay cv (colorize cv st imdata) temp) 0\<rparr>"
      using assms(2) Some Inr p idle by (simp add: Let_def)
    have ann: "annotated cv st (overlay cv (colorize cv st imdata) temp)"
      unfolding annotated_def using Inr p
      by (intro exI [of _ raw]) (simp add: frame_pipeline_def)
    have st_old: "settled s' a \<longleftrightarrow> settled s a" for a
      using idle by (auto simp: s' settled_def)
    have nth_old: "settled s a \<Longrightarrow> s_heap s' ! a = s_heap s ! a" for a
      by (simp add: s' settled_def nth_append)
    show ?thesis
      unfolding sys_inv_def
    proof (intro conjI)
      show "\<forall>a. settled s' a \<longrightarrow> s_heap s' ! a \<in> set (s_published s')"
        using assms(1) st_old nth_old by (simp add: sys_inv_def s')
      show "case s_cap s' of
         Drawing a old new i \<Rightarrow>
           Suc a = length (s_heap s') \<and> s_heap s' ! a = partial_draw old new i \<and>
           annotated cv st new
       | _ \<Rightarrow> True"
        using ann by (simp add: s' partial_draw_def)
      show "\<forall>a. current_frame (s_server s') = Some a \<longrightarrow> settled s' a"
        using assms(1) st_old by (simp add: sys_inv_def s')
      show "\<forall>k a. c_frame (s_conns s' k) = Some a \<longrightarrow> settled s' a"
        using assms(1) st_old by (simp add: sys_inv_def s')
      show "\<forall>k b. c_buf (s_conns s' k) = Some b \<longrightarrow>
          (\<exists>a. c_frame (s_conns s' k) = Some a \<and> b = take (length b) (s_heap s' ! a))"
      proof (intro allI impI)
        fix k b assume "c_buf (s_conns s' k) = Some b"
        then have "c_buf (s_conns s k) = Some b" by (simp add: s')
        with assms(1) obtain a where a: "c_frame (s_conns s k) = Some a"
            "b = take (length b) (s_heap s ! a)"
          unfolding sys_inv_def by blast
        with assms(1) have "settled s a" unfolding sys_inv_def by blast
        with a nth_old [of a] show "\<exists>a. c_frame (s_conns s' k) = Some a \<and> b = take (length b) (s_heap s' ! a)"
          by (auto simp: s')
      qed
      show "\<forall>k. set (c_seen (s_conns s' k)) \<subseteq> set (s_published s')"
        using assms(1) by (simp add: sys_inv_def s')
      show "\<forall>img \<in> set (s_published s'). annotated cv st img"
        using assms(1) by (simp add: sys_inv_def s')
    qed
  qed
qed

lemma inv_cap_draw:
  assumes "sys_inv cv st s" "step cv st Cap_draw s = Some s'"
  shows "sys_inv cv st s'"
proof -
  from assms(2) obtain a old new i where
    cap: "s_cap s = Drawing a old new i" and
    s': "s' = s\<lparr>s_heap := (s_heap s)[a := partial_draw old new (Suc i)],
                  s_cap := Drawing a old new (Suc i)\<rparr>"
    by (auto split: cap_state.splits if_splits)
  from assms(1) cap have a: "Suc a = length (s_heap s)" and ann: "annotated cv st new"
    by (simp_all add: sys_inv_def)
  have st_old: "settled s' b \<longleftrightarrow> settled s b" for b
    using cap by (auto simp: s' settled_def)
  have nth_old: "settled s b \<Longrightarrow> s_heap s' ! b = s_heap s ! b" for b
    using cap by (auto simp: s' settled_def)
  show ?thesis
    unfolding sys_inv_def
  proof (intro conjI)
    show "\<forall>a. settled s' a \<longrightarrow> s_heap s' ! a \<in> set (s_published s')"
      using assms(1) st_old nth_old by (simp add: sys_inv_def s')
    show "case s_cap s' of
       Drawing a old new i \<Rightarrow>
         Suc a = length (s_heap s') \<and> s_heap s' ! a = partial_draw old new i \<and>
         annotated cv st new
     | _ \<Rightarrow> True"
      using a ann by (simp add: s')
    show "\<forall>a. current_frame (s_server s') = Some a \<longrightarrow> settled s' a"
      using assms(1) st_old by (simp add: sys_inv_def s')
    show "\<forall>k a. c_frame (s_conns s' k) = Some a \<longrightarrow> settled s' a"
      using assms(1) st_old by (simp add: sys_inv_def s')
    show "\<forall>k b. c_buf (s_conns s' k) = Some b \<longrightarrow>
        (\<exists>a. c_frame (s_conns s' k) = Some a \<and> b = take (length b) (s_heap s' ! a))"
    proof (intro allI impI)
      fix k b assume "c_buf (s_conns s' k) = Some b"
      then have "c_buf (s_conns s k) = Some b" by (simp add: s')
      with assms(1) obtain c where c: "c_frame (s_conns s k) = Some c"
          "b = take (length b) (s_heap s ! c)"
        unfolding sys_inv_def by blast
      with assms(1) have "settled s c" unfolding sys_inv_def by blast
      from nth_old [OF this] c
      show "\<exists>a. c_frame (s_conns s' k) = Some a \<and> b = take (length b) (s_heap s' ! a)"
        by (auto simp: s')
    qed
    show "\<forall>k. set (c_seen (s_conns s' k)) \<subseteq> set (s_published s')"
      using assms(1) by (simp add: sys_inv_def s')
    show "\<forall>img \<in> set (s_published s'). annotated cv st img"
      using assms(1) by (simp add: sys_inv_def s')
  qed
qed

lemma inv_cap_publish:
  assumes "sys_inv cv st s" "step cv st Cap_publish s = Some s'"
  shows "sys_inv cv st s'"
proof -
  from assms(2) obtain a old new i where
    cap: "s_cap s = Drawing a old new i" and
    fin: "\<not> i < max (length old) (length new)" and
    s': "s' = s\<lparr>s_server := set_frame (Some a) (s_server s),
                  s_published := s_published s @ [s_heap s ! a], s_cap := Idle\<rparr>"
    by (auto split: cap_state.splits if_splits)
  from assms(1) cap have a: "Suc a = length (s_heap s)" and ann: "annotated cv st new"
    and cont: "s_heap s ! a = partial_draw old new i"
    by (simp_all add: sys_inv_def)
  from cont fin have new: "s_heap s ! a = new" by (simp add: partial_draw_done)
  have st_new: "settled s' b \<longleftrightarrow> settled s b \<or> b = a" for b
    using cap a by (auto simp: s' settled_def)
  show ?thesis
    unfolding sys_inv_def
  proof (intro conjI)
    show "\<forall>a. settled s' a \<longrightarrow> s_heap s' ! a \<in> set (s_published s')"
      using assms(1) st_new by (auto simp: sys_inv_def s')
    show "case s_cap s' of
       Drawing a old new i \<Rightarrow>
         Suc a = length (s_heap s') \<and> s_heap s' ! a = partial_draw old new i \<and>
         annotated cv st new
     | _ \<Rightarrow> True"
      by (simp add: s')
    show "\<forall>a. current_frame (s_server s') = Some a \<longrightarrow> settled s' a"
      using st_new by (simp add: s' set_frame_def)
    show "\<forall>k a. c_frame (s_conns s' k) = Some a \<longrightarrow> settled s' a"
      using assms(1) st_new by (simp add: sys_inv_def s')
    show "\<forall>k b. c_buf (s_conns s' k) = Some b \<longrightarrow>
        (\<exists>a. c_frame (s_conns s' k) = Some a \<and> b = take (length b) (s_heap s' ! a))"
      using assms(1) by (simp add: sys_inv_def s')
    show "\<forall>k. set (c_seen (s_conns s' k)) \<subseteq> set (s_published s')"
      using assms(1) by (auto simp: sys_inv_def s')
    show "\<forall>img \<in> set (s_published s'). annotated cv st img"
      using assms(1) ann new by (auto simp: sys_inv_def s')
  qed
qed

lemma inv_conn_get:
  assumes "sys_inv cv st s" "step cv st (Conn_get k) s = Some s'"
  shows "sys_inv cv st s'"
proof -
  define c where "c = s_conns s k"
  define fr where "fr = get_frame (s_server s)"
  from assms(2) have
    s': "s' = s\<lparr>s_conns := (s_conns s)
                 (k := c\<lparr>c_frame := fr,
                        c_buf := (case fr of None \<Rightarrow> None | Some a \<Rightarrow> Some [])\<rparr>)\<rparr>"
    by (auto simp: Let_def c_def fr_def split: option.splits)
  have st_old: "settled s' b \<longleftrightarrow> settled s b" for b
    by (simp add: s' settled_def)
  show ?thesis
    unfolding sys_inv_def
  proof (intro conjI)
    show "\<forall>a. settled s' a \<longrightarrow> s_heap s' ! a \<in> set (s_published s')"
      using assms(1) st_old by (simp add: sys_inv_def s')
    show "case s_cap s' of
       Drawing a old new i \<Rightarrow>
         Suc a = length (s_heap s') \<and> s_heap s' ! a = partial_draw old new i \<and>
         annotated cv st new
     | _ \<Rightarrow> True"
      using assms(1) by (auto simp: sys_inv_def s' split: cap_state.splits)
    show "\<forall>a. current_frame (s_server s') = Some a \<longrightarrow> settled s' a"
      using assms(1) st_old by (simp add: sys_inv_def s')
    show "\<forall>k a. c_frame (s_conns s' k) = Some a \<longrightarrow> settled s' a"
      using assms(1) st_old by (simp add: sys_inv_def s' fr_def get_frame_def)
    show "\<forall>k b. c_buf (s_conns s' k) = Some b \<longrightarrow>
        (\<exists>a. c_frame (s_conns s' k) = Some a \<and> b = take (length b) (s_heap s' ! a))"
      using assms(1) by (auto simp: sys_inv_def s' split: option.splits)
    show "\<forall>k. set (c_seen (s_conns s' k)) \<subseteq> set (s_published s')"
      using assms(1) by (simp add: sys_inv_def s' c_def)
    show "\<forall>img \<in> set (s_published s'). annotated cv st img"
      using assms(1) by (simp add: sys_inv_def s')
  qed
qed

lemma inv_conn_encode:
  assumes "sys_inv cv st s" "step cv st (Conn_encode k) s = Some s'"
  shows "sys_inv cv st s'"
proof -
  define c where "c = s_conns s k"
  from assms(2) obtain a b where
    fr: "c_frame c = Some a" and buf: "c_buf c = Some b" and
    s': "s' = (if length b < length (s_heap s ! a)
               then s\<lparr>s_conns := (s_conns s)
                         (k := c\<lparr>c_buf := Some (b @ [s_heap s ! a ! length b])\<rparr>)\<rparr>
               else s\<lparr>s_conns := (s_conns s)
                         (k := c\<lparr>c_buf := None, c_seen := c_seen c @ [b]\<rparr>)\<rparr>)"
    by (auto simp: Let_def c_def split: option.splits if_splits)
  have st_old: "settled s' b \<longleftrightarrow> settled s b" for b
    by (simp add: s' settled_def)
  from assms(1) have "\<forall>k b. c_buf (s_conns s k) = Some b \<longrightarrow>
          (\<exists>a. c_frame (s_conns s k) = Some a \<and> b = take (length b) (s_heap s ! a))"
    and "\<forall>k a. c_frame (s_conns s k) = Some a \<longrightarrow> settled s a"
    unfolding sys_inv_def by blast+
  with fr buf have pre: "b = take (length b) (s_heap s ! a)" and sta: "settled s a"
    by (fastforce simp: c_def)+
  from assms(1) sta have pub: "s_heap s ! a \<in> set (s_published s)"
    by (simp add: sys_inv_def)
  have ext: "length b < length (s_heap s ! a) \<Longrightarrow>
      b @ [s_heap s ! a ! length b] = take (Suc (length b)) (s_heap s ! a)"
    using pre by (metis take_Suc_conv_app_nth)
  have whole: "\<not> length b < length (s_heap s ! a) \<Longrightarrow> b = s_heap s ! a"
    using pre by (metis not_less take_all)
  show ?thesis
    unfolding sys_inv_def
  proof (intro conjI)
    show "\<forall>a. settled s' a \<longrightarrow> s_heap s' ! a \<in> set (s_published s')"
      using assms(1) st_old by (simp add: sys_inv_def s')
    show "case s_cap s' of
       Drawing a old new i \<Rightarrow>
         Suc a = length (s_heap s') \<and> s_heap s' ! a = partial_draw old new i \<and>
         annotated cv st new
     | _ \<Rightarrow> True"
      using assms(1) by (auto simp: sys_inv_def s' split: cap_state.splits)
    show "\<forall>a. current_frame (s_server s') = Some a \<longrightarrow> settled s' a"
      using assms(1) st_old by (simp add: sys_inv_def s')
    show "\<forall>k a. c_frame (s_conns s' k) = Some a \<longrightarrow> settled s' a"
      using assms(1) st_old by (simp add: sys_inv_def s' c_def)
    show "\<forall>k b. c_buf (s_conns s' k) = Some b \<longrightarrow>
        (\<exists>a. c_frame (s_conns s' k) = Some a \<and> b = take (length b) (s_heap s' ! a))"
      using assms(1) fr ext by (auto simp: sys_inv_def s')
    show "\<forall>k. set (c_seen (s_conns s' k)) \<subseteq> set (s_published s')"
      using assms(1) whole pub by (auto simp: sys_inv_def s' c_def)
    show "\<forall>img \<in> set (s_published s'). annotated cv st img"
      using assms(1) by (simp add: sys_inv_def s')
  qed
qed

lemma inv_step: "sys_inv cv st s \<Longrightarrow> step cv st e s = Some s' \<Longrightarrow> sys_inv cv st s'"
  by (cases e) (blast intro: inv_cap_read inv_cap_draw inv_cap_publish inv_conn_get
                  inv_conn_encode)+

lemma inv_run: "sys_inv cv st s \<Longrightarrow> run cv st es s = Some s' \<Longrightarrow> sys_inv cv st s'"
  by (induction es arbitrary: s) (auto split: option.splits dest: inv_step)

text \<open>
  C5: in every state the capture thread and any number of connection threads can reach,
  in whatever order their steps are taken, the reference a connection holds from its last
  read of the store is empty or refers to an array whose contents are those of a
  published frame; every image a connection has read through such a reference, pixel by
  pixel while the capture thread went on, is one published frame, whole; and every
  published frame is the complete result of the pipeline on some raw frame, text included.
\<close>

theorem no_torn_frame:
  assumes "run cv st es init_sys = Some s"
  shows "(c_frame (s_conns s k) = None \<or>
          (\<exists>a. c_frame (s_conns s k) = Some a \<and> a < length (s_heap s) \<and>
               s_heap s ! a \<in> set (s_published s))) \<and>
         set (c_seen (s_conns s k)) \<subseteq> set (s_published s) \<and>
         (\<forall>img \<in> set (s_published s). \<exists>raw. frame_pipeline cv st raw = Inr img)"
proof -
  have i: "sys_inv cv st s" using inv_run [OF inv_init assms] .
  then have "\<forall>a. c_frame (s_conns s k) = Some a \<longrightarrow> settled s a"
    "\<forall>a. settled s a \<longrightarrow> s_heap s ! a \<in> set (s_published s)"
    "set (c_seen (s_conns s k)) \<subseteq> set (s_published s)"
    "\<forall>img \<in> set (s_published s). annotated cv st img"
    unfolding sys_inv_def by blast+
  then show ?thesis
    by (cases "c_frame (s_conns s k)") (auto simp: settled_def annotated_def)
qed

lemma split_and_decode_sample_frame:
  "split_and_decode (sample_frame bg b0 b1) =
     Inr (replicate 192 (replicate 256 [bg, bg]), temp_of_bytes b0 b1)"
  by (simp add: split_and_decode_sample [OF sample_bytes_sample_frame]
                array_split2_sample_frame)

lemma toy_colorize:
  "colorize toy_cv2 st (replicate 192 (replicate 256 [bg, bg])) = [bg, bg]"
  by (simp add: colorize_def toy_cv2_def Let_def)

lemma toy_overlay: "overlay toy_cv2 img temp = map (\<lambda>p. p + 1) img"
  by (simp add: overlay_def toy_cv2_def)

theorem no_torn_frame_witness:
  "map_option (\<lambda>s. (c_seen (s_conns s 0), c_frame (s_conns s 1), s_published s, s_heap s))
     (run toy_cv2 program_settings
        [Cap_read (Some (sample_frame 1 0 0)), Cap_draw, Cap_draw, Cap_publish,
         Conn_get 0, Conn_encode 0,
         Cap_read (Some (sample_frame 5 0 0)), Cap_draw,
         Conn_encode 0, Cap_draw, Cap_publish, Conn_get 1, Conn_encode 0]
        init_sys)
   = Some ([[2, 2]], Some 1, [[2, 2], [6, 6]], [[2, 2], [6, 6]])"
proof -
  have t: "map_option
       (\<lambda>s. (c_seen (s_conns s 0), c_frame (s_conns s 1), s_published s, s_heap s))
     (run toy_cv2 program_settings
        [Cap_read (Some (sample_frame 1 0 0)), Cap_draw, Cap_draw, Cap_publish,
         Conn_get 0, Conn_encode 0,
         Cap_read (Some (sample_frame 5 0 0)), Cap_draw,
         Conn_encode 0, Cap_draw, Cap_publish, Conn_get 1, Conn_encode 0]
        init_sys)
   = Some ([[2, 2]], Some 1, [[2, 2], [6, 6]], [[2, 2], [6, 6]])"
    by (simp add: init_sys_def split_and_decode_sample_frame toy_colorize toy_overlay
          partial_draw_def get_frame_def set_frame_def ThreadedHTTPServer_init_def Let_def)
  then obtain s where r: "run toy_cv2 program_settings
        [Cap_read (Some (sample_frame 1 0 0)), Cap_draw, Cap_draw, Cap_publish,
         Conn_get 0, Conn_encode 0,
         Cap_read (Some (sample_frame 5 0 0)), Cap_draw,
         Conn_encode 0, Cap_draw, Cap_publish, Conn_get 1, Conn_encode 0]
        init_sys = Some s"
    by blast
  show ?thesis
    using no_torn_frame [OF r, of 0] by - (rule t)
qed

end
